theory Spec2Isabelle
  imports Complex_Main
begin

section \<open>The complexity scorer (scripts/analyze.py, class ComplexityFactors)\<close>

text \<open>
  The dataclass \<open>ComplexityFactors\<close> holds eight Python integers. Python integers are
  unbounded, so every field is an \<open>int\<close>.

  The score is a Python float. It is modelled by an exact real number: every product and
  every partial sum of \<open>calculate_score\<close> is an integer multiple of one half, which
  binary floating point represents exactly for counts of any realistic size, the final
  division by 5 is one correctly rounded (hence monotone) operation, and the thresholds
  5, 15 and 30 of \<open>get_category\<close> are the exact quotients of the weighted sums 25,
  75 and 150, so each comparison of the rounded quotient agrees with the comparison of
  the exact one.
\<close>

record ComplexityFactors =
  functional_requirements :: int
  integration_points :: int
  ui_components :: int
  database_changes :: int
  external_apis :: int
  authentication_features :: int
  file_operations :: int
  real_time_features :: int

text \<open>
  \<open>calculate_score\<close>: the sum is evaluated from left to right as Python does; the first
  two products are integers, and from the third term on the sum is a float.
\<close>

definition calculate_score :: "ComplexityFactors \<Rightarrow> real" where
  "calculate_score self =
     (real_of_int (functional_requirements self * 2 + integration_points self * 3)
      + real_of_int (ui_components self) * 1.5
      + real_of_int (database_changes self * 2)
      + real_of_int (external_apis self * 3)
      + real_of_int (authentication_features self * 4)
      + real_of_int (file_operations self) * 1.5
      + real_of_int (real_time_features self * 3)) / 5"

definition get_category :: "ComplexityFactors \<Rightarrow> string" where
  "get_category self =
     (let score = calculate_score self in
      if score \<le> 5 then ''simple''
      else if score \<le> 15 then ''medium''
      else if score \<le> 30 then ''complex''
      else ''enterprise'')"

text \<open>The dictionary \<open>ranges\<close> of \<open>get_story_count_range\<close>, in the order of the source.\<close>

definition ranges :: "(string \<times> (int \<times> int)) list" where
  "ranges =
     [(''simple'', (3, 5)),
      (''medium'', (6, 12)),
      (''complex'', (13, 25)),
      (''enterprise'', (26, 50))]"

text \<open>Python's \<open>d.get(key, default)\<close>.\<close>

definition dict_get :: "('k \<times> 'v) list \<Rightarrow> 'k \<Rightarrow> 'v \<Rightarrow> 'v" where
  "dict_get d k dflt = (case map_of d k of Some v \<Rightarrow> v | None \<Rightarrow> dflt)"

definition get_story_count_range :: "ComplexityFactors \<Rightarrow> int \<times> int" where
  "get_story_count_range self =
     (let category = get_category self in dict_get ranges category (6, 12))"

text \<open>Python's \<open>int(x)\<close> on a float truncates towards zero.\<close>

definition py_int :: "real \<Rightarrow> int" where
  "py_int x = (if 0 \<le> x then \<lfloor>x\<rfloor> else \<lceil>x\<rceil>)"

definition get_iteration_estimate :: "ComplexityFactors \<Rightarrow> int \<times> int" where
  "get_iteration_estimate self =
     (case get_story_count_range self of
        (min_stories, max_stories) \<Rightarrow>
          (min_stories, py_int (real_of_int max_stories * 1.5)))"

text \<open>
  The data model of the specification: a FactorCounts record holds non-negative
  counters, and every record the analyzer produces holds counters of at most 20.
\<close>

definition nonneg_counts :: "ComplexityFactors \<Rightarrow> bool" where
  "nonneg_counts f =
     (0 \<le> functional_requirements f \<and> 0 \<le> integration_points f \<and>
      0 \<le> ui_components f \<and> 0 \<le> database_changes f \<and>
      0 \<le> external_apis f \<and> 0 \<le> authentication_features f \<and>
      0 \<le> file_operations f \<and> 0 \<le> real_time_features f)"

definition capped_counts :: "ComplexityFactors \<Rightarrow> bool" where
  "capped_counts f =
     (functional_requirements f \<le> 20 \<and> integration_points f \<le> 20 \<and>
      ui_components f \<le> 20 \<and> database_changes f \<le> 20 \<and>
      external_apis f \<le> 20 \<and> authentication_features f \<le> 20 \<and>
      file_operations f \<le> 20 \<and> real_time_features f \<le> 20)"

section \<open>Python strings and the regular expressions of module re\<close>

text \<open>
  A Python string is a list of characters. A \<open>char\<close> stands for a code point below 256,
  which covers the ASCII vocabulary of every pattern of the program.
  \<open>is_space\<close> is \<open>str.isspace\<close> (and the class \<open>\s\<close>), \<open>is_digit\<close> the class \<open>\d\<close>,
  \<open>lower_chr\<close> is \<open>str.lower\<close> on one character.
\<close>

definition is_space :: "char \<Rightarrow> bool" where
  "is_space c =
     (let n = (of_char c :: nat) in
      (9 \<le> n \<and> n \<le> 13) \<or> (28 \<le> n \<and> n \<le> 32) \<or> n = 133 \<or> n = 160)"

definition is_digit :: "char \<Rightarrow> bool" where
  "is_digit c = (let n = (of_char c :: nat) in 48 \<le> n \<and> n \<le> 57)"

definition lower_chr :: "char \<Rightarrow> char" where
  "lower_chr c =
     (let n = (of_char c :: nat) in
      if (65 \<le> n \<and> n \<le> 90) \<or> (192 \<le> n \<and> n \<le> 222 \<and> n \<noteq> 215)
      then char_of (n + 32) else c)"

definition upper_chr :: "char \<Rightarrow> char" where
  "upper_chr c =
     (let n = (of_char c :: nat) in
      if (97 \<le> n \<and> n \<le> 122) \<or> (224 \<le> n \<and> n \<le> 254 \<and> n \<noteq> 247)
      then char_of (n - 32) else c)"

definition py_lower :: "string \<Rightarrow> string" where
  "py_lower s = map lower_chr s"

text \<open>\<open>s.strip()\<close> and \<open>s.strip("-")\<close>: the characters to remove are given by a predicate.\<close>

definition py_strip :: "(char \<Rightarrow> bool) \<Rightarrow> string \<Rightarrow> string" where
  "py_strip P s = rev (dropWhile P (rev (dropWhile P s)))"

text \<open>
  The fragment of the pattern language that the program uses: literal text, the dot,
  character sets (possibly negated) of single characters, ranges, \<open>\s\<close> and \<open>\d\<close>,
  sequence, alternation, the greedy and the lazy star, the capturing group (there is at
  most one in every pattern, group 1) and the anchor \<open>$\<close>.
\<close>

datatype citem = CChar char | CRange char char | CSpace | CDigit

datatype rx =
    RLits string
  | RDot
  | RSet bool "citem list"
  | RSeq rx rx
  | RAlt rx rx
  | RStar rx
  | RLazyStar rx
  | RGroup rx
  | REol

definition r_plus :: "rx \<Rightarrow> rx" where
  "r_plus r = RSeq r (RStar r)"

definition r_lazy_plus :: "rx \<Rightarrow> rx" where
  "r_lazy_plus r = RSeq r (RLazyStar r)"

definition r_opt :: "rx \<Rightarrow> rx" where
  "r_opt r = RAlt r (RLits [])"

fun seqs :: "rx list \<Rightarrow> rx" where
  "seqs [] = RLits []"
| "seqs [r] = r"
| "seqs (r # rs) = RSeq r (seqs rs)"

fun alts :: "rx list \<Rightarrow> rx" where
  "alts [] = RSet False []"
| "alts [r] = r"
| "alts (r # rs) = RAlt r (alts rs)"

definition words :: "string list \<Rightarrow> rx" where
  "words ws = alts (map RLits ws)"

definition r_ws :: rx where
  "r_ws = RSet False [CSpace]"

definition r_newline :: rx where
  "r_newline = RLits [CHR 0x0A]"

text \<open>
  Membership in a character set. Under \<open>re.IGNORECASE\<close> a character belongs to a set when
  one of its case variants does; the classes \<open>\s\<close> and \<open>\d\<close> have no case.
\<close>

fun in_item :: "citem \<Rightarrow> char \<Rightarrow> bool" where
  "in_item (CChar a) x = (x = a)"
| "in_item (CRange lo hi) x =
     ((of_char lo :: nat) \<le> of_char x \<and> (of_char x :: nat) \<le> of_char hi)"
| "in_item CSpace x = is_space x"
| "in_item CDigit x = is_digit x"

definition in_class :: "bool \<Rightarrow> citem list \<Rightarrow> char \<Rightarrow> bool" where
  "in_class ic items x =
     list_ex (\<lambda>it. if ic then in_item it (lower_chr x) \<or> in_item it (upper_chr x) \<or> in_item it x
                   else in_item it x) items"

definition chr_eq :: "bool \<Rightarrow> char \<Rightarrow> char \<Rightarrow> bool" where
  "chr_eq ic a x = (if ic then lower_chr x = lower_chr a else x = a)"

fun strip_lits :: "bool \<Rightarrow> string \<Rightarrow> string \<Rightarrow> string option" where
  "strip_lits ic [] s = Some s"
| "strip_lits ic (a # as) [] = None"
| "strip_lits ic (a # as) (x # xs) = (if chr_eq ic a x then strip_lits ic as xs else None)"

text \<open>
  The matcher is the backtracking matcher of \<open>re\<close>: it explores the alternatives in
  Python's order of preference and stops at the first complete match. A configuration
  is the rest of the subject and the text of group 1, if the group has taken part. The
  continuation stands for the rest of the pattern.

  A star repeats its body as long as each round consumes a character, so the number of
  rounds is bounded by the length of the rest of the subject; that bound is the first
  argument of \<open>star_greedy\<close> and \<open>star_lazy\<close>.
\<close>

type_synonym cfg = "string \<times> string option"

primrec star_greedy ::
  "nat \<Rightarrow> (cfg \<Rightarrow> (cfg \<Rightarrow> cfg option) \<Rightarrow> cfg option) \<Rightarrow> cfg \<Rightarrow> (cfg \<Rightarrow> cfg option) \<Rightarrow> cfg option"
where
  "star_greedy 0 m c k = k c"
| "star_greedy (Suc n) m c k =
     (case m c (\<lambda>c'. if length (fst c') < length (fst c) then star_greedy n m c' k else None) of
        Some r \<Rightarrow> Some r
      | None \<Rightarrow> k c)"

primrec star_lazy ::
  "nat \<Rightarrow> (cfg \<Rightarrow> (cfg \<Rightarrow> cfg option) \<Rightarrow> cfg option) \<Rightarrow> cfg \<Rightarrow> (cfg \<Rightarrow> cfg option) \<Rightarrow> cfg option"
where
  "star_lazy 0 m c k = k c"
| "star_lazy (Suc n) m c k =
     (case k c of
        Some r \<Rightarrow> Some r
      | None \<Rightarrow>
          m c (\<lambda>c'. if length (fst c') < length (fst c) then star_lazy n m c' k else None))"

primrec rmatch :: "bool \<Rightarrow> rx \<Rightarrow> cfg \<Rightarrow> (cfg \<Rightarrow> cfg option) \<Rightarrow> cfg option" where
  "rmatch ic (RLits s) c k =
     (case strip_lits ic s (fst c) of Some rest \<Rightarrow> k (rest, snd c) | None \<Rightarrow> None)"
| "rmatch ic RDot c k =
     (case fst c of
        [] \<Rightarrow> None
      | x # xs \<Rightarrow> if x = CHR 0x0A then None else k (xs, snd c))"
| "rmatch ic (RSet neg items) c k =
     (case fst c of
        [] \<Rightarrow> None
      | x # xs \<Rightarrow> if in_class ic items x \<noteq> neg then k (xs, snd c) else None)"
| "rmatch ic (RSeq a b) c k = rmatch ic a c (\<lambda>c'. rmatch ic b c' k)"
| "rmatch ic (RAlt a b) c k =
     (case rmatch ic a c k of Some r \<Rightarrow> Some r | None \<Rightarrow> rmatch ic b c k)"
| "rmatch ic (RStar a) c k = star_greedy (length (fst c)) (rmatch ic a) c k"
| "rmatch ic (RLazyStar a) c k = star_lazy (length (fst c)) (rmatch ic a) c k"
| "rmatch ic (RGroup a) c k =
     rmatch ic a c
       (\<lambda>c'. k (fst c', Some (take (length (fst c) - length (fst c')) (fst c))))"
| "rmatch ic REol c k = (if fst c = [] \<or> fst c = [CHR 0x0A] then k c else None)"

text \<open>
  \<open>re.search\<close>: the first position, from the left, where the pattern matches. None of the
  patterns looks behind the position, so the subject before it is dropped.
\<close>

fun re_search :: "bool \<Rightarrow> rx \<Rightarrow> string \<Rightarrow> cfg option" where
  "re_search ic r [] = rmatch ic r ([], None) Some"
| "re_search ic r (x # xs) =
     (case rmatch ic r (x # xs, None) Some of
        Some m \<Rightarrow> Some m
      | None \<Rightarrow> re_search ic r xs)"

text \<open>
  \<open>len(re.findall(pattern, s))\<close>: the number of non-overlapping matches, scanning from
  the left; after a match the scan resumes where the match ended, and after an empty
  match one character further.
\<close>

fun findall_count :: "bool \<Rightarrow> rx \<Rightarrow> string \<Rightarrow> nat" where
  "findall_count ic r s =
     (case rmatch ic r (s, None) Some of
        Some (s', g) \<Rightarrow>
          (if length s' < length s then Suc (findall_count ic r s')
           else (case s of [] \<Rightarrow> 1 | x # t \<Rightarrow> Suc (findall_count ic r t)))
      | None \<Rightarrow> (case s of [] \<Rightarrow> 0 | x # t \<Rightarrow> findall_count ic r t))"

text \<open>\<open>re.sub(pattern, repl, s)\<close> for a replacement text without group references.\<close>

fun re_sub :: "bool \<Rightarrow> rx \<Rightarrow> string \<Rightarrow> string \<Rightarrow> string" where
  "re_sub ic r repl s =
     (case rmatch ic r (s, None) Some of
        Some (s', g) \<Rightarrow>
          (if length s' < length s then repl @ re_sub ic r repl s'
           else (case s of [] \<Rightarrow> repl | x # t \<Rightarrow> repl @ x # re_sub ic r repl t))
      | None \<Rightarrow> (case s of [] \<Rightarrow> [] | x # t \<Rightarrow> x # re_sub ic r repl t))"

text \<open>
  The scanning functions are unfolded by hand, one step at a time, in the proofs below.
\<close>

declare findall_count.simps [simp del]

declare re_sub.simps [simp del]

section \<open>The analyzer (class ComplexityAnalyzer)\<close>

text \<open>
  The table \<open>PATTERNS\<close>: one list of patterns for each factor, in the order of the source.
  Each list is a constant of its own.
\<close>

definition functional_requirements_patterns :: "rx list" where
  "functional_requirements_patterns =
     [seqs [words [''must'', ''shall'', ''should'', ''will''], r_plus r_ws,
            words [''be able to'', ''allow'', ''enable'', ''support'']],
      seqs [RLits ''FR-'', r_plus (RSet False [CDigit])],
      seqs [RLits ''requirement'', r_opt (RSet False [CChar CHR ''s'']), RStar r_ws, RLits '':''],
      seqs [words [''user'', ''system''], r_plus r_ws, words [''can'', ''will'', ''should'']]]"

definition integration_points_patterns :: "rx list" where
  "integration_points_patterns =
     [seqs [RLits ''integrat'', words [''e'', ''ion'', ''ing''], r_plus r_ws, RLits ''with''],
      seqs [RLits ''connect'', r_opt (words [''s'', ''ing'']), r_plus r_ws, RLits ''to''],
      seqs [alts [seqs [RLits ''third'', RSet False [CChar CHR ''-'', CChar CHR '' ''], RLits ''party''],
                  RLits ''external''],
            r_plus r_ws, words [''service'', ''system'', ''api'']],
      seqs [RLits ''webhook'', r_opt (RSet False [CChar CHR ''s''])],
      seqs [words [''import'', ''export''], r_plus r_ws, words [''from'', ''to'']]]"

definition ui_components_patterns :: "rx list" where
  "ui_components_patterns =
     [words [''button'', ''form'', ''modal'', ''dialog'', ''dropdown'', ''menu'', ''table'',
             ''list'', ''card'', ''panel''],
      words [''page'', ''screen'', ''view'', ''component'', ''widget''],
      words [''display'', ''show'', ''render'', ''present''],
      RLits ''UI/UX'',
      words [''click'', ''tap'', ''hover'', ''drag'', ''drop'']]"

definition database_changes_patterns :: "rx list" where
  "database_changes_patterns =
     [words [''database'', ''db'', ''schema'', ''table'', ''column'', ''field'', ''migration''],
      seqs [words [''create'', ''update'', ''delete'', ''insert''], r_plus r_ws,
            words [''table'', ''record'', ''row'']],
      words [''sql'', ''query'', ''index''],
      words [''foreign key'', ''primary key'', ''constraint'']]"

definition external_apis_patterns :: "rx list" where
  "external_apis_patterns =
     [words [''api'', ''endpoint'', ''rest'', ''graphql'', ''grpc''],
      seqs [words [''http'', ''https''], RStar r_ws, RLits ''://''],
      seqs [words [''get'', ''post'', ''put'', ''patch'', ''delete''], r_plus r_ws,
            words [''request'', ''endpoint'']],
      alts [RLits ''oauth'',
            seqs [RLits ''api'', RSet False [CChar CHR ''-'', CChar CHR '' ''], RLits ''key''],
            RLits ''token'']]"

definition authentication_features_patterns :: "rx list" where
  "authentication_features_patterns =
     [words [''auth'', ''login'', ''logout'', ''signin'', ''signout'', ''signup''],
      words [''password'', ''credential'', ''session'', ''jwt'', ''token''],
      words [''permission'', ''role'', ''access control'', ''rbac''],
      alts [RLits ''mfa'', RLits ''2fa'',
            seqs [RLits ''two'', RSet False [CChar CHR ''-'', CChar CHR '' ''], RLits ''factor'']]]"

definition file_operations_patterns :: "rx list" where
  "file_operations_patterns =
     [words [''upload'', ''download'', ''file'', ''attachment'', ''document''],
      words [''storage'', ''s3'', ''blob'', ''bucket''],
      words [''image'', ''video'', ''audio'', ''media'']]"

definition real_time_features_patterns :: "rx list" where
  "real_time_features_patterns =
     [alts [seqs [RLits ''real'', RSet False [CChar CHR ''-'', CChar CHR '' ''], RLits ''time''],
            RLits ''live'', RLits ''streaming'', RLits ''websocket''],
      words [''notification'', ''push'', ''alert''],
      words [''sync'', ''synchroniz'']]"

definition PATTERNS :: "(string \<times> rx list) list" where
  "PATTERNS =
     [(''functional_requirements'', functional_requirements_patterns),
      (''integration_points'', integration_points_patterns),
      (''ui_components'', ui_components_patterns),
      (''database_changes'', database_changes_patterns),
      (''external_apis'', external_apis_patterns),
      (''authentication_features'', authentication_features_patterns),
      (''file_operations'', file_operations_patterns),
      (''real_time_features'', real_time_features_patterns)]"

text \<open>
  \<open>__init__\<close>: the PRD text and the architecture text are lower-cased; an absent (or
  empty) architecture text counts as the empty string; the combined text joins the two
  with a line break.
\<close>

record ComplexityAnalyzer =
  content :: string
  arch_content :: string
  combined_content :: string

definition new_analyzer :: "string \<Rightarrow> string option \<Rightarrow> ComplexityAnalyzer" where
  "new_analyzer text arch =
     (let c = py_lower text;
          a = py_lower (case arch of None \<Rightarrow> [] | Some t \<Rightarrow> t)
      in \<lparr>content = c, arch_content = a, combined_content = c @ [CHR 0x0A] @ a\<rparr>)"

text \<open>\<open>ComplexityFactors()\<close>: every counter defaults to 0.\<close>

definition default_factors :: ComplexityFactors where
  "default_factors =
     \<lparr>functional_requirements = 0, integration_points = 0, ui_components = 0,
      database_changes = 0, external_apis = 0, authentication_features = 0,
      file_operations = 0, real_time_features = 0\<rparr>"

text \<open>\<open>setattr(factors, factor_name, v)\<close> for the field names of the dataclass.\<close>

definition setattr_factor :: "ComplexityFactors \<Rightarrow> string \<Rightarrow> int \<Rightarrow> ComplexityFactors" where
  "setattr_factor factors name v =
     (if name = ''functional_requirements'' then factors\<lparr>functional_requirements := v\<rparr>
      else if name = ''integration_points'' then factors\<lparr>integration_points := v\<rparr>
      else if name = ''ui_components'' then factors\<lparr>ui_components := v\<rparr>
      else if name = ''database_changes'' then factors\<lparr>database_changes := v\<rparr>
      else if name = ''external_apis'' then factors\<lparr>external_apis := v\<rparr>
      else if name = ''authentication_features'' then factors\<lparr>authentication_features := v\<rparr>
      else if name = ''file_operations'' then factors\<lparr>file_operations := v\<rparr>
      else if name = ''real_time_features'' then factors\<lparr>real_time_features := v\<rparr>
      else factors)"

text \<open>The inner loop of \<open>analyze\<close>: \<open>count += len(re.findall(pattern, text, re.IGNORECASE))\<close>.\<close>

fun count_matches :: "rx list \<Rightarrow> string \<Rightarrow> int \<Rightarrow> int" where
  "count_matches [] text count = count"
| "count_matches (pattern # patterns) text count =
     count_matches patterns text (count + int (findall_count True pattern text))"

text \<open>The outer loop: each factor is set to \<open>min(count, 20)\<close>.\<close>

fun analyze_loop :: "(string \<times> rx list) list \<Rightarrow> string \<Rightarrow> ComplexityFactors \<Rightarrow> ComplexityFactors" where
  "analyze_loop [] text factors = factors"
| "analyze_loop ((factor_name, patterns) # items) text factors =
     analyze_loop items text
       (setattr_factor factors factor_name (min (count_matches patterns text 0) 20))"

definition analyze :: "ComplexityAnalyzer \<Rightarrow> ComplexityFactors" where
  "analyze self = analyze_loop PATTERNS (combined_content self) default_factors"

text \<open>
  The title patterns of \<open>extract_feature_name\<close> and the patterns of
  \<open>extract_project_name\<close>, in the order of the source.
\<close>

definition title_labelled_heading :: rx where
  "title_labelled_heading =
     seqs [RLits ''#'', RStar r_ws, words [''PRD'', ''Feature'', ''Product Requirements''],
           RLits '':'', RStar r_ws, RGroup (r_plus RDot)]"

definition title_first_heading :: rx where
  "title_first_heading =
     seqs [RLits ''#'', RStar r_ws, RGroup (r_lazy_plus RDot), RAlt r_newline REol]"

definition title_inline_label :: rx where
  "title_inline_label =
     seqs [words [''feature'', ''project''], RLits '':'', RStar r_ws,
           RGroup (r_lazy_plus RDot), RAlt r_newline REol]"

definition title_patterns :: "rx list" where
  "title_patterns = [title_labelled_heading, title_first_heading, title_inline_label]"

definition r_capital :: rx where
  "r_capital = RSet False [CRange CHR ''A'' CHR ''Z'']"

definition r_letters :: rx where
  "r_letters = r_plus (RSet False [CRange CHR ''a'' CHR ''z'', CRange CHR ''A'' CHR ''Z''])"

definition project_label :: rx where
  "project_label =
     seqs [RLits ''project:'', RStar r_ws, RGroup (r_lazy_plus RDot), RAlt r_newline REol]"

definition project_capitalized_phrase :: rx where
  "project_capitalized_phrase =
     seqs [words [''for'', ''in''], r_plus r_ws, r_opt (seqs [RLits ''the'', r_plus r_ws]),
           RGroup (seqs [r_capital, r_letters, RStar (seqs [r_plus r_ws, r_capital, r_letters])]),
           r_plus r_ws, words [''project'', ''app'', ''application'']]"

definition project_patterns :: "rx list" where
  "project_patterns = [project_label, project_capitalized_phrase]"

text \<open>
  \<open>match.group(1)\<close> is \<open>None\<close> when the group took no part in the match, and
  \<open>None.strip()\<close> raises \<open>AttributeError\<close>.
\<close>

datatype py_error = AttributeError

definition group1_strip :: "cfg \<Rightarrow> py_error + string" where
  "group1_strip m =
     (case snd m of None \<Rightarrow> Inl AttributeError | Some g \<Rightarrow> Inr (py_strip is_space g))"

text \<open>The conversion to kebab-case: \<open>re.sub(r"[^a-z0-9]+", "-", title.lower()).strip("-")\<close>.\<close>

definition r_not_alnum :: rx where
  "r_not_alnum =
     r_plus (RSet True [CRange CHR ''a'' CHR ''z'', CRange CHR ''0'' CHR ''9''])"

definition kebab_case :: "string \<Rightarrow> string" where
  "kebab_case title =
     py_strip (\<lambda>c. c = CHR ''-'') (re_sub False r_not_alnum ''-'' (py_lower title))"

fun feature_name_loop :: "rx list \<Rightarrow> string \<Rightarrow> py_error + string" where
  "feature_name_loop [] text = Inr ''feature''"
| "feature_name_loop (pattern # patterns) text =
     (case re_search True pattern text of
        Some m \<Rightarrow>
          (case group1_strip m of
             Inl e \<Rightarrow> Inl e
           | Inr title \<Rightarrow> Inr (kebab_case title))
      | None \<Rightarrow> feature_name_loop patterns text)"

definition extract_feature_name :: "ComplexityAnalyzer \<Rightarrow> py_error + string" where
  "extract_feature_name self = feature_name_loop title_patterns (content self)"

fun project_name_loop :: "rx list \<Rightarrow> string \<Rightarrow> py_error + string" where
  "project_name_loop [] text = Inr ''Project''"
| "project_name_loop (pattern # patterns) text =
     (case re_search True pattern text of
        Some m \<Rightarrow> group1_strip m
      | None \<Rightarrow> project_name_loop patterns text)"

definition extract_project_name :: "ComplexityAnalyzer \<Rightarrow> py_error + string" where
  "extract_project_name self = project_name_loop project_patterns (content self)"

section \<open>The slug in the words of the specification\<close>

text \<open>
  The specification describes the slug as the text lower-cased, every run of
  non-alphanumeric characters collapsed to a single separator, and the separators at
  both ends trimmed. After lower-casing, the alphanumeric characters of the source's
  pattern are the letters a to z and the digits. \<open>spec_slug\<close> follows these words; it is
  compared with \<open>kebab_case\<close>, which follows the source.
\<close>

definition is_alnum :: "char \<Rightarrow> bool" where
  "is_alnum c =
     (let n = (of_char c :: nat) in (97 \<le> n \<and> n \<le> 122) \<or> (48 \<le> n \<and> n \<le> 57))"

function collapse_runs :: "string \<Rightarrow> string" where
  "collapse_runs [] = []"
| "collapse_runs (c # cs) =
     (if is_alnum c then c # collapse_runs cs
      else CHR ''-'' # collapse_runs (dropWhile (\<lambda>x. \<not> is_alnum x) cs))"
  by pat_completeness auto
termination
  by (relation "measure length") (auto simp add: length_dropWhile_le less_Suc_eq_le)

definition spec_slug :: "string \<Rightarrow> string" where
  "spec_slug title = py_strip (\<lambda>c. c = CHR ''-'') (collapse_runs (py_lower title))"

text \<open>A pattern sets group 1 on every path through it.\<close>

primrec sets_group :: "rx \<Rightarrow> bool" where
  "sets_group (RLits s) = False"
| "sets_group RDot = False"
| "sets_group (RSet neg items) = False"
| "sets_group (RSeq a b) = (sets_group a \<or> sets_group b)"
| "sets_group (RAlt a b) = (sets_group a \<and> sets_group b)"
| "sets_group (RStar a) = False"
| "sets_group (RLazyStar a) = False"
| "sets_group (RGroup a) = True"
| "sets_group REol = False"

text \<open>
  Ten times the score is an integer. The comparisons of \<open>get_category\<close> are decided by
  this integer (lemma \<open>category_by_tenths\<close> below), which is why the rounding of the
  float quotient plays no role in them.
\<close>

definition score_tenths :: "ComplexityFactors \<Rightarrow> int" where
  "score_tenths f =
     4 * functional_requirements f + 6 * integration_points f + 3 * ui_components f
     + 4 * database_changes f + 6 * external_apis f + 8 * authentication_features f
     + 3 * file_operations f + 6 * real_time_features f"

text \<open>The positional constructor \<open>ComplexityFactors(a, b, ...)\<close> of the dataclass.\<close>

definition mk_factors ::
  "int \<Rightarrow> int \<Rightarrow> int \<Rightarrow> int \<Rightarrow> int \<Rightarrow> int \<Rightarrow> int \<Rightarrow> int \<Rightarrow> ComplexityFactors" where
  "mk_factors fr ip ui db api au fo rt =
     \<lparr>functional_requirements = fr, integration_points = ip, ui_components = ui,
      database_changes = db, external_apis = api, authentication_features = au,
      file_operations = fo, real_time_features = rt\<rparr>"

section \<open>Properties of the scorer\<close>

text \<open>
  Claim C1: for every record, the weighted complexity score equals
  (2 * functional requirements + 3 * integration points + 1.5 * UI components
   + 2 * database changes + 3 * external APIs + 4 * authentication features
   + 1.5 * file operations + 3 * real-time features) / 5.
\<close>

theorem calculate_score_weighted_sum:
  "calculate_score f =
     (2 * real_of_int (functional_requirements f)
      + 3 * real_of_int (integration_points f)
      + 1.5 * real_of_int (ui_components f)
      + 2 * real_of_int (database_changes f)
      + 3 * real_of_int (external_apis f)
      + 4 * real_of_int (authentication_features f)
      + 1.5 * real_of_int (file_operations f)
      + 3 * real_of_int (real_time_features f)) / 5"
  by (simp add: calculate_score_def)

lemma score_mk_factors:
  "calculate_score (mk_factors fr ip ui db api au fo rt) =
     (real_of_int (4 * fr + 6 * ip + 3 * ui + 4 * db + 6 * api + 8 * au + 3 * fo + 6 * rt)) / 10"
  by (simp add: calculate_score_def mk_factors_def)

lemma nonneg_mk_factors:
  "nonneg_counts (mk_factors fr ip ui db api au fo rt) =
     (0 \<le> fr \<and> 0 \<le> ip \<and> 0 \<le> ui \<and> 0 \<le> db \<and> 0 \<le> api \<and> 0 \<le> au \<and> 0 \<le> fo \<and> 0 \<le> rt)"
  by (simp add: nonneg_counts_def mk_factors_def)

lemma capped_mk_factors:
  "capped_counts (mk_factors fr ip ui db api au fo rt) =
     (fr \<le> 20 \<and> ip \<le> 20 \<and> ui \<le> 20 \<and> db \<le> 20 \<and> api \<le> 20 \<and> au \<le> 20 \<and> fo \<le> 20 \<and> rt \<le> 20)"
  by (simp add: capped_counts_def mk_factors_def)

lemma score_nonneg: "nonneg_counts f \<Longrightarrow> 0 \<le> calculate_score f"
  by (simp add: calculate_score_def nonneg_counts_def)

lemma category_cases:
  "get_category f = ''simple'' \<or> get_category f = ''medium'' \<or>
   get_category f = ''complex'' \<or> get_category f = ''enterprise''"
  by (simp add: get_category_def Let_def)

lemma category_simple: "(get_category f = ''simple'') = (calculate_score f \<le> 5)"
  by (simp add: get_category_def Let_def)

lemma category_medium:
  "(get_category f = ''medium'') = (5 < calculate_score f \<and> calculate_score f \<le> 15)"
  by (simp add: get_category_def Let_def)

lemma category_complex:
  "(get_category f = ''complex'') = (15 < calculate_score f \<and> calculate_score f \<le> 30)"
  by (simp add: get_category_def Let_def)

lemma category_enterprise: "(get_category f = ''enterprise'') = (30 < calculate_score f)"
  by (simp add: get_category_def Let_def)

lemma score_by_tenths: "calculate_score f = real_of_int (score_tenths f) / 10"
  by (simp add: calculate_score_def score_tenths_def)

lemma category_by_tenths:
  "get_category f =
     (if score_tenths f \<le> 50 then ''simple''
      else if score_tenths f \<le> 150 then ''medium''
      else if score_tenths f \<le> 300 then ''complex''
      else ''enterprise'')"
proof -
  have "(calculate_score f \<le> 5) = (score_tenths f \<le> 50)"
    "(calculate_score f \<le> 15) = (score_tenths f \<le> 150)"
    "(calculate_score f \<le> 30) = (score_tenths f \<le> 300)"
    by (simp_all add: score_by_tenths)
  then show ?thesis by (simp only: get_category_def Let_def)
qed

text \<open>
  Claim C2: for a record (of non-negative counters) with score s, the category is
  "simple" exactly when 0 <= s <= 5, "medium" exactly when 5 < s <= 15, "complex"
  exactly when 15 < s <= 30 and "enterprise" exactly when s > 30. The score is never
  negative, so the four bands are contiguous, disjoint and cover the whole range of the
  score; the witness evaluates both sides of each of the three boundaries.
\<close>

theorem get_category_bands:
  assumes "nonneg_counts f"
  shows "0 \<le> calculate_score f \<and>
     (get_category f = ''simple'' \<longleftrightarrow> 0 \<le> calculate_score f \<and> calculate_score f \<le> 5) \<and>
     (get_category f = ''medium'' \<longleftrightarrow> 5 < calculate_score f \<and> calculate_score f \<le> 15) \<and>
     (get_category f = ''complex'' \<longleftrightarrow> 15 < calculate_score f \<and> calculate_score f \<le> 30) \<and>
     (get_category f = ''enterprise'' \<longleftrightarrow> 30 < calculate_score f)"
  using score_nonneg [OF assms]
  by (simp add: category_simple category_medium category_complex category_enterprise)

theorem get_category_bands_witness:
  "nonneg_counts (mk_factors 11 0 2 0 0 0 0 0) \<and>
   calculate_score (mk_factors 11 0 2 0 0 0 0 0) = 5 \<and>
   get_category (mk_factors 11 0 2 0 0 0 0 0) = ''simple'' \<and>
   calculate_score (mk_factors 12 0 1 0 0 0 0 0) = 5.1 \<and>
   get_category (mk_factors 12 0 1 0 0 0 0 0) = ''medium'' \<and>
   calculate_score (mk_factors 0 0 2 0 0 18 0 0) = 15 \<and>
   get_category (mk_factors 0 0 2 0 0 18 0 0) = ''medium'' \<and>
   calculate_score (mk_factors 1 0 1 0 0 18 0 0) = 15.1 \<and>
   get_category (mk_factors 1 0 1 0 0 18 0 0) = ''complex'' \<and>
   calculate_score (mk_factors 5 20 0 0 0 20 0 0) = 30 \<and>
   get_category (mk_factors 5 20 0 0 0 20 0 0) = ''complex'' \<and>
   calculate_score (mk_factors 3 20 3 0 0 20 0 0) = 30.1 \<and>
   get_category (mk_factors 3 20 3 0 0 20 0 0) = ''enterprise''"
  using get_category_bands [of "mk_factors 11 0 2 0 0 0 0 0"]
    get_category_bands [of "mk_factors 12 0 1 0 0 0 0 0"]
    get_category_bands [of "mk_factors 0 0 2 0 0 18 0 0"]
    get_category_bands [of "mk_factors 1 0 1 0 0 18 0 0"]
    get_category_bands [of "mk_factors 5 20 0 0 0 20 0 0"]
    get_category_bands [of "mk_factors 3 20 3 0 0 20 0 0"]
  by (simp add: score_mk_factors nonneg_mk_factors)

lemma story_range_eq:
  "get_story_count_range f =
     (if get_category f = ''simple'' then (3, 5)
      else if get_category f = ''medium'' then (6, 12)
      else if get_category f = ''complex'' then (13, 25)
      else (26, 50))"
  using category_cases [of f]
  by (auto simp add: get_story_count_range_def dict_get_def ranges_def)

text \<open>
  Claim C4: the recommended story-count range is (3,5) for "simple", (6,12) for
  "medium", (13,25) for "complex" and (26,50) for "enterprise". The lookup falls back to
  (6,12) for any other category value, and the fallback is unreachable: the category of
  a record is always one of the four keys of the table.
\<close>

theorem story_count_range_table:
  "(get_category f = ''simple'' \<longrightarrow> get_story_count_range f = (3, 5)) \<and>
   (get_category f = ''medium'' \<longrightarrow> get_story_count_range f = (6, 12)) \<and>
   (get_category f = ''complex'' \<longrightarrow> get_story_count_range f = (13, 25)) \<and>
   (get_category f = ''enterprise'' \<longrightarrow> get_story_count_range f = (26, 50)) \<and>
   get_story_count_range f = dict_get ranges (get_category f) (6, 12) \<and>
   (\<forall>c. c \<notin> {''simple'', ''medium'', ''complex'', ''enterprise''} \<longrightarrow>
        dict_get ranges c (6, 12) = (6, 12)) \<and>
   get_category f \<in> {''simple'', ''medium'', ''complex'', ''enterprise''} \<and>
   map_of ranges (get_category f) \<noteq> None"
proof -
  have a: "get_story_count_range f = dict_get ranges (get_category f) (6, 12)"
    by (simp add: get_story_count_range_def)
  have b: "\<forall>c. c \<notin> {''simple'', ''medium'', ''complex'', ''enterprise''} \<longrightarrow>
        dict_get ranges c (6, 12) = (6, 12)"
    by (simp add: dict_get_def ranges_def)
  have c: "get_category f \<in> {''simple'', ''medium'', ''complex'', ''enterprise''}"
    using category_cases [of f] by auto
  have d: "map_of ranges (get_category f) \<noteq> None"
    using category_cases [of f] by (auto simp add: ranges_def)
  show ?thesis using a b c d by (simp add: story_range_eq)
qed

theorem story_count_range_table_witness:
  "get_category (mk_factors 0 0 0 0 0 0 0 0) = ''simple'' \<and>
   get_story_count_range (mk_factors 0 0 0 0 0 0 0 0) = (3, 5) \<and>
   get_category (mk_factors 10 0 0 0 0 10 0 0) = ''medium'' \<and>
   get_story_count_range (mk_factors 10 0 0 0 0 10 0 0) = (6, 12) \<and>
   get_category (mk_factors 20 0 0 0 0 20 0 0) = ''complex'' \<and>
   get_story_count_range (mk_factors 20 0 0 0 0 20 0 0) = (13, 25) \<and>
   get_category (mk_factors 20 20 20 20 20 20 20 20) = ''enterprise'' \<and>
   get_story_count_range (mk_factors 20 20 20 20 20 20 20 20) = (26, 50) \<and>
   ''huge'' \<notin> {''simple'', ''medium'', ''complex'', ''enterprise''} \<and>
   dict_get ranges ''huge'' (6, 12) = (6, 12)"
proof -
  have c1: "get_category (mk_factors 0 0 0 0 0 0 0 0) = ''simple''"
    by (simp add: category_simple score_mk_factors)
  have c2: "get_category (mk_factors 10 0 0 0 0 10 0 0) = ''medium''"
    by (simp add: category_medium score_mk_factors)
  have c3: "get_category (mk_factors 20 0 0 0 0 20 0 0) = ''complex''"
    by (simp add: category_complex score_mk_factors)
  have c4: "get_category (mk_factors 20 20 20 20 20 20 20 20) = ''enterprise''"
    by (simp add: category_enterprise score_mk_factors)
  have c5: "''huge'' \<notin> {''simple'', ''medium'', ''complex'', ''enterprise''}"
    by simp
  show ?thesis
    using c1 c2 c3 c4 c5
      story_count_range_table [of "mk_factors 0 0 0 0 0 0 0 0"]
      story_count_range_table [of "mk_factors 10 0 0 0 0 10 0 0"]
      story_count_range_table [of "mk_factors 20 0 0 0 0 20 0 0"]
      story_count_range_table [of "mk_factors 20 20 20 20 20 20 20 20"]
    by simp
qed

lemma iteration_estimate_eq:
  "get_iteration_estimate f =
     (if get_category f = ''simple'' then (3, 7)
      else if get_category f = ''medium'' then (6, 18)
      else if get_category f = ''complex'' then (13, 37)
      else (26, 75))"
  by (simp add: get_iteration_estimate_def story_range_eq py_int_def)

text \<open>
  Claim C5: the iteration-count range has the low bound of the story-count range and
  the high bound floor(story high * 1.5); the four categories give the highs 5 to 7,
  12 to 18, 25 to 37 and 50 to 75, and the iteration high is never below the story high.
\<close>

theorem iteration_estimate_range:
  "fst (get_iteration_estimate f) = fst (get_story_count_range f) \<and>
   snd (get_iteration_estimate f) = \<lfloor>real_of_int (snd (get_story_count_range f)) * 1.5\<rfloor> \<and>
   (get_category f = ''simple'' \<longrightarrow>
      snd (get_story_count_range f) = 5 \<and> snd (get_iteration_estimate f) = 7) \<and>
   (get_category f = ''medium'' \<longrightarrow>
      snd (get_story_count_range f) = 12 \<and> snd (get_iteration_estimate f) = 18) \<and>
   (get_category f = ''complex'' \<longrightarrow>
      snd (get_story_count_range f) = 25 \<and> snd (get_iteration_estimate f) = 37) \<and>
   (get_category f = ''enterprise'' \<longrightarrow>
      snd (get_story_count_range f) = 50 \<and> snd (get_iteration_estimate f) = 75) \<and>
   snd (get_story_count_range f) \<le> snd (get_iteration_estimate f)"
  by (simp add: iteration_estimate_eq story_range_eq)

theorem iteration_estimate_range_witness:
  "get_category (mk_factors 1 0 0 0 0 0 0 0) = ''simple'' \<and>
   get_iteration_estimate (mk_factors 1 0 0 0 0 0 0 0) = (3, 7) \<and>
   get_category (mk_factors 0 10 0 0 0 0 0 0) = ''medium'' \<and>
   get_iteration_estimate (mk_factors 0 10 0 0 0 0 0 0) = (6, 18) \<and>
   get_category (mk_factors 0 0 0 0 0 20 0 0) = ''complex'' \<and>
   get_iteration_estimate (mk_factors 0 0 0 0 0 20 0 0) = (13, 37) \<and>
   get_category (mk_factors 0 20 0 0 20 20 0 0) = ''enterprise'' \<and>
   get_iteration_estimate (mk_factors 0 20 0 0 20 20 0 0) = (26, 75)"
proof -
  have c1: "get_category (mk_factors 1 0 0 0 0 0 0 0) = ''simple''"
    by (simp add: category_simple score_mk_factors)
  have c2: "get_category (mk_factors 0 10 0 0 0 0 0 0) = ''medium''"
    by (simp add: category_medium score_mk_factors)
  have c3: "get_category (mk_factors 0 0 0 0 0 20 0 0) = ''complex''"
    by (simp add: category_complex score_mk_factors)
  have c4: "get_category (mk_factors 0 20 0 0 20 20 0 0) = ''enterprise''"
    by (simp add: category_enterprise score_mk_factors)
  show ?thesis
    using c1 c2 c3 c4
      iteration_estimate_range [of "mk_factors 1 0 0 0 0 0 0 0"]
      iteration_estimate_range [of "mk_factors 0 10 0 0 0 0 0 0"]
      iteration_estimate_range [of "mk_factors 0 0 0 0 0 20 0 0"]
      iteration_estimate_range [of "mk_factors 0 20 0 0 20 20 0 0"]
    by (simp add: prod_eq_iff story_range_eq)
qed

text \<open>
  Claim C7: two records that agree on seven counts and differ in one: the record with
  the larger value of that count has a score greater than or equal to the other's. The
  two records are written as one record updated in the field that differs.
\<close>

theorem score_monotone:
  assumes "n \<le> m"
  shows
   "calculate_score (f\<lparr>functional_requirements := n\<rparr>)
      \<le> calculate_score (f\<lparr>functional_requirements := m\<rparr>) \<and>
    calculate_score (f\<lparr>integration_points := n\<rparr>)
      \<le> calculate_score (f\<lparr>integration_points := m\<rparr>) \<and>
    calculate_score (f\<lparr>ui_components := n\<rparr>)
      \<le> calculate_score (f\<lparr>ui_components := m\<rparr>) \<and>
    calculate_score (f\<lparr>database_changes := n\<rparr>)
      \<le> calculate_score (f\<lparr>database_changes := m\<rparr>) \<and>
    calculate_score (f\<lparr>external_apis := n\<rparr>)
      \<le> calculate_score (f\<lparr>external_apis := m\<rparr>) \<and>
    calculate_score (f\<lparr>authentication_features := n\<rparr>)
      \<le> calculate_score (f\<lparr>authentication_features := m\<rparr>) \<and>
    calculate_score (f\<lparr>file_operations := n\<rparr>)
      \<le> calculate_score (f\<lparr>file_operations := m\<rparr>) \<and>
    calculate_score (f\<lparr>real_time_features := n\<rparr>)
      \<le> calculate_score (f\<lparr>real_time_features := m\<rparr>)"
  using assms by (simp add: calculate_score_def)

theorem score_monotone_witness:
  "(3::int) \<le> 4 \<and>
   calculate_score ((mk_factors 1 2 3 4 5 6 7 8)\<lparr>ui_components := 3\<rparr>)
     \<le> calculate_score ((mk_factors 1 2 3 4 5 6 7 8)\<lparr>ui_components := 4\<rparr>) \<and>
   calculate_score ((mk_factors 1 2 3 4 5 6 7 8)\<lparr>ui_components := 3\<rparr>) = 18.8 \<and>
   calculate_score ((mk_factors 1 2 3 4 5 6 7 8)\<lparr>ui_components := 4\<rparr>) = 19.1"
proof -
  have h: "(3::int) \<le> 4" by simp
  have a: "calculate_score ((mk_factors 1 2 3 4 5 6 7 8)\<lparr>ui_components := 3\<rparr>) = 18.8"
    by (simp add: calculate_score_def mk_factors_def)
  have b: "calculate_score ((mk_factors 1 2 3 4 5 6 7 8)\<lparr>ui_components := 4\<rparr>) = 19.1"
    by (simp add: calculate_score_def mk_factors_def)
  show ?thesis
    using h a b score_monotone [OF h, of "mk_factors 1 2 3 4 5 6 7 8"] by simp
qed

section \<open>The bound on the rounds of a star is never reached\<close>

text \<open>
  The matcher returns a result only through its continuation, so a star whose subject
  is used up stops by itself: any bound of at least the length of the rest of the
  subject gives the same result as the bound that \<open>rmatch\<close> passes.
\<close>

lemma star_greedy_no_continuation:
  assumes m: "\<And>c k. (\<And>c'. k c' = None) \<Longrightarrow> m c k = None"
    and k: "\<And>c'. k c' = None"
  shows "star_greedy n m c k = None"
proof (induction n arbitrary: c)
  case 0
  show ?case by (simp only: star_greedy.simps k)
next
  case (Suc n)
  have "m c (\<lambda>c'. if length (fst c') < length (fst c) then star_greedy n m c' k else None) = None"
    by (rule m) (simp only: Suc.IH if_cancel)
  moreover have "k c = None" by (rule k)
  ultimately show ?case by (simp only: star_greedy.simps option.case)
qed

lemma star_lazy_no_continuation:
  assumes m: "\<And>c k. (\<And>c'. k c' = None) \<Longrightarrow> m c k = None"
    and k: "\<And>c'. k c' = None"
  shows "star_lazy n m c k = None"
proof (induction n arbitrary: c)
  case 0
  show ?case by (simp only: star_lazy.simps k)
next
  case (Suc n)
  have "m c (\<lambda>c'. if length (fst c') < length (fst c) then star_lazy n m c' k else None) = None"
    by (rule m) (simp only: Suc.IH if_cancel)
  moreover have "k c = None" by (rule k)
  ultimately show ?case by (simp only: star_lazy.simps option.case)
qed

lemma rmatch_no_continuation:
  "(\<And>c'. k c' = None) \<Longrightarrow> rmatch ic r c k = None"
proof (induction r arbitrary: c k)
  case (RLits s)
  show ?case by (cases "strip_lits ic s (fst c)") (simp_all only: rmatch.simps option.case RLits)
next
  case RDot
  show ?case by (cases "fst c") (simp_all only: rmatch.simps list.case RDot if_cancel)
next
  case (RSet neg items)
  show ?case by (cases "fst c") (simp_all only: rmatch.simps list.case RSet if_cancel)
next
  case (RSeq a b)
  have "rmatch ic a c (\<lambda>c'. rmatch ic b c' k) = None"
    by (rule RSeq.IH(1)) (rule RSeq.IH(2), rule RSeq.prems)
  then show ?case by (simp only: rmatch.simps)
next
  case (RAlt a b)
  have "rmatch ic a c k = None" "rmatch ic b c k = None"
    by (rule RAlt.IH(1), rule RAlt.prems) (rule RAlt.IH(2), rule RAlt.prems)
  then show ?case by (simp only: rmatch.simps option.case)
next
  case (RStar a)
  have "star_greedy (length (fst c)) (rmatch ic a) c k = None"
    by (rule star_greedy_no_continuation) (rule RStar.IH, assumption, rule RStar.prems)
  then show ?case by (simp only: rmatch.simps)
next
  case (RLazyStar a)
  have "star_lazy (length (fst c)) (rmatch ic a) c k = None"
    by (rule star_lazy_no_continuation) (rule RLazyStar.IH, assumption, rule RLazyStar.prems)
  then show ?case by (simp only: rmatch.simps)
next
  case (RGroup a)
  have "rmatch ic a c
       (\<lambda>c'. k (fst c', Some (take (length (fst c) - length (fst c')) (fst c)))) = None"
    by (rule RGroup.IH) (rule RGroup.prems)
  then show ?case by (simp only: rmatch.simps)
next
  case REol
  show ?case by (simp only: rmatch.simps REol if_cancel)
qed


lemma star_greedy_empty:
  assumes m: "\<And>c. m c (\<lambda>c'. None) = None" and e: "fst c = []"
  shows "star_greedy n m c k = k c"
proof (cases n)
  case 0
  then show ?thesis by (simp only: star_greedy.simps)
next
  case (Suc j)
  have "(\<lambda>c'. if length (fst c') < length (fst c) then star_greedy j m c' k else None)
      = (\<lambda>c'. None)"
    by (simp add: e)
  then have "star_greedy (Suc j) m c k = k c"
    by (cases "k c") (simp_all only: star_greedy.simps m option.case)
  then show ?thesis by (simp only: Suc)
qed

lemma star_greedy_bound:
  assumes m: "\<And>c. m c (\<lambda>c'. None) = None"
  shows "length (fst c) \<le> n \<Longrightarrow> length (fst c) \<le> n' \<Longrightarrow>
     star_greedy n m c k = star_greedy n' m c k"
proof (induction n arbitrary: n' c)
  case 0
  then have e: "fst c = []" by simp
  show ?case by (simp only: star_greedy_empty [where m = m and c = c, OF m e])
next
  case (Suc i)
  show ?case
  proof (cases n')
    case 0
    then have e: "fst c = []" using Suc.prems by simp
    show ?thesis by (simp only: star_greedy_empty [where m = m and c = c, OF m e])
  next
    case (Suc j)
    have "(if length (fst c') < length (fst c) then star_greedy i m c' k else None)
        = (if length (fst c') < length (fst c) then star_greedy j m c' k else None)" for c'
    proof (cases "length (fst c') < length (fst c)")
      case True
      then have "length (fst c') \<le> i" and "length (fst c') \<le> j"
        using Suc.prems Suc by simp_all
      then have "star_greedy i m c' k = star_greedy j m c' k" by (rule Suc.IH)
      then show ?thesis by (simp only:)
    next
      case False
      then show ?thesis by (simp only: if_False)
    qed
    then have "star_greedy (Suc i) m c k = star_greedy (Suc j) m c k"
      by (simp only: star_greedy.simps)
    then show ?thesis by (simp only: Suc)
  qed
qed

lemma star_lazy_empty:
  assumes m: "\<And>c. m c (\<lambda>c'. None) = None" and e: "fst c = []"
  shows "star_lazy n m c k = k c"
proof (cases n)
  case 0
  then show ?thesis by (simp only: star_lazy.simps)
next
  case (Suc j)
  have "(\<lambda>c'. if length (fst c') < length (fst c) then star_lazy j m c' k else None)
      = (\<lambda>c'. None)"
    by (simp add: e)
  then have "star_lazy (Suc j) m c k = k c"
    by (cases "k c") (simp_all only: star_lazy.simps m option.case)
  then show ?thesis by (simp only: Suc)
qed

lemma star_lazy_bound:
  assumes m: "\<And>c. m c (\<lambda>c'. None) = None"
  shows "length (fst c) \<le> n \<Longrightarrow> length (fst c) \<le> n' \<Longrightarrow>
     star_lazy n m c k = star_lazy n' m c k"
proof (induction n arbitrary: n' c)
  case 0
  then have e: "fst c = []" by simp
  show ?case by (simp only: star_lazy_empty [where m = m and c = c, OF m e])
next
  case (Suc i)
  show ?case
  proof (cases n')
    case 0
    then have e: "fst c = []" using Suc.prems by simp
    show ?thesis by (simp only: star_lazy_empty [where m = m and c = c, OF m e])
  next
    case (Suc j)
    have "(if length (fst c') < length (fst c) then star_lazy i m c' k else None)
        = (if length (fst c') < length (fst c) then star_lazy j m c' k else None)" for c'
    proof (cases "length (fst c') < length (fst c)")
      case True
      then have "length (fst c') \<le> i" and "length (fst c') \<le> j"
        using Suc.prems Suc by simp_all
      then have "star_lazy i m c' k = star_lazy j m c' k" by (rule Suc.IH)
      then show ?thesis by (simp only:)
    next
      case False
      then show ?thesis by (simp only: if_False)
    qed
    then have "star_lazy (Suc i) m c k = star_lazy (Suc j) m c k"
      by (simp only: star_lazy.simps)
    then show ?thesis by (simp only: Suc)
  qed
qed

lemma rmatch_star_bound:
  "length (fst c) \<le> n \<Longrightarrow>
   rmatch ic (RStar a) c k = star_greedy n (rmatch ic a) c k \<and>
   rmatch ic (RLazyStar a) c k = star_lazy n (rmatch ic a) c k"
proof -
  assume le: "length (fst c) \<le> n"
  have m: "rmatch ic a c (\<lambda>c'. None) = None" for c
    by (rule rmatch_no_continuation) (rule refl)
  have "star_greedy (length (fst c)) (rmatch ic a) c k = star_greedy n (rmatch ic a) c k"
    by (rule star_greedy_bound [where m = "rmatch ic a" and c = c, OF m order_refl le])
  moreover
  have "star_lazy (length (fst c)) (rmatch ic a) c k = star_lazy n (rmatch ic a) c k"
    by (rule star_lazy_bound [where m = "rmatch ic a" and c = c, OF m order_refl le])
  ultimately show ?thesis by (simp only: rmatch.simps)
qed

section \<open>Properties of the analyzer\<close>

lemma count_matches_sum:
  "count_matches patterns text count =
     count + (\<Sum>p\<leftarrow>patterns. int (findall_count True p text))"
  by (induction patterns arbitrary: count) simp_all

lemma count_matches_ge: "count \<le> count_matches patterns text count"
proof -
  have "0 \<le> (\<Sum>p\<leftarrow>patterns. int (findall_count True p text))"
    by (rule sum_list_nonneg) auto
  then show ?thesis by (simp add: count_matches_sum)
qed

lemma analyze_fields:
  "analyze a =
     mk_factors
       (min (count_matches functional_requirements_patterns (combined_content a) 0) 20)
       (min (count_matches integration_points_patterns (combined_content a) 0) 20)
       (min (count_matches ui_components_patterns (combined_content a) 0) 20)
       (min (count_matches database_changes_patterns (combined_content a) 0) 20)
       (min (count_matches external_apis_patterns (combined_content a) 0) 20)
       (min (count_matches authentication_features_patterns (combined_content a) 0) 20)
       (min (count_matches file_operations_patterns (combined_content a) 0) 20)
       (min (count_matches real_time_features_patterns (combined_content a) 0) 20)"
  by (simp add: analyze_def PATTERNS_def setattr_factor_def default_factors_def mk_factors_def)

lemma analyze_nonneg: "nonneg_counts (analyze a)"
  by (simp add: analyze_fields nonneg_mk_factors count_matches_ge)

lemma analyze_capped: "capped_counts (analyze a)"
  by (simp add: analyze_fields capped_mk_factors)

text \<open>
  Claim C10: a record whose eight counts all lie in [0, 20] has a score of at most 80,
  and the score is 80 exactly when all eight counts are 20; so the score lies in
  [0, 80] and such a record is "enterprise" exactly when 30 < s <= 80. Every record
  that the analyzer produces is such a record.
\<close>

theorem score_bounded:
  assumes "nonneg_counts f" and "capped_counts f"
  shows "0 \<le> calculate_score f \<and> calculate_score f \<le> 80 \<and>
    (calculate_score f = 80 \<longleftrightarrow>
       functional_requirements f = 20 \<and> integration_points f = 20 \<and> ui_components f = 20 \<and>
       database_changes f = 20 \<and> external_apis f = 20 \<and> authentication_features f = 20 \<and>
       file_operations f = 20 \<and> real_time_features f = 20) \<and>
    (get_category f = ''enterprise'' \<longleftrightarrow> 30 < calculate_score f \<and> calculate_score f \<le> 80) \<and>
    nonneg_counts (analyze (new_analyzer prd arch)) \<and>
    capped_counts (analyze (new_analyzer prd arch))"
proof -
  have le: "calculate_score f \<le> 80"
    using assms(2) by (simp add: calculate_score_def capped_counts_def)
  have eq: "calculate_score f = 80 \<longleftrightarrow>
       functional_requirements f = 20 \<and> integration_points f = 20 \<and> ui_components f = 20 \<and>
       database_changes f = 20 \<and> external_apis f = 20 \<and> authentication_features f = 20 \<and>
       file_operations f = 20 \<and> real_time_features f = 20"
    using assms(2) by (auto simp add: calculate_score_def capped_counts_def)
  show ?thesis
    using le eq score_nonneg [OF assms(1)]
    by (simp add: category_enterprise analyze_nonneg analyze_capped)
qed

theorem score_bounded_witness:
  "nonneg_counts (mk_factors 20 20 20 20 20 20 20 20) \<and>
   capped_counts (mk_factors 20 20 20 20 20 20 20 20) \<and>
   calculate_score (mk_factors 20 20 20 20 20 20 20 20) = 80 \<and>
   get_category (mk_factors 20 20 20 20 20 20 20 20) = ''enterprise''"
proof -
  have h1: "nonneg_counts (mk_factors 20 20 20 20 20 20 20 20)"
    by (simp add: nonneg_mk_factors)
  have h2: "capped_counts (mk_factors 20 20 20 20 20 20 20 20)"
    by (simp add: capped_mk_factors)
  show ?thesis
    using h1 h2 score_bounded [OF h1 h2, of "[]" None] by (simp add: mk_factors_def)
qed

text \<open>
  Adversarial repetition: n copies of a matching phrase are n matches of the pattern
  \<open>webhook[s]?\<close>, so from 20 copies on the count of integration points is 20.
\<close>

lemma webhook_step:
  "findall_count True (seqs [RLits ''webhook'', r_opt (RSet False [CChar CHR ''s''])])
     (''webhook '' @ s)
   = Suc (findall_count True (seqs [RLits ''webhook'', r_opt (RSet False [CChar CHR ''s''])]) s)"
  (is "findall_count True ?r _ = _")
proof -
  have low: "lower_chr CHR ''w'' = CHR ''w''" "lower_chr CHR ''e'' = CHR ''e''"
    "lower_chr CHR ''b'' = CHR ''b''" "lower_chr CHR ''h'' = CHR ''h''"
    "lower_chr CHR ''o'' = CHR ''o''" "lower_chr CHR ''k'' = CHR ''k''"
    "lower_chr CHR '' '' = CHR '' ''" "upper_chr CHR '' '' = CHR '' ''"
    by (simp_all add: lower_chr_def upper_chr_def)
  have m1: "rmatch True ?r (''webhook '' @ s, None) Some = Some (CHR '' '' # s, None)"
    by (simp add: r_opt_def chr_eq_def in_class_def low)
  have m2: "rmatch True ?r (CHR '' '' # s, None) Some = None"
    by (simp add: r_opt_def chr_eq_def in_class_def low)
  have "findall_count True ?r (''webhook '' @ s) = Suc (findall_count True ?r (CHR '' '' # s))"
    by (subst findall_count.simps, subst m1, simp)
  also have "findall_count True ?r (CHR '' '' # s) = findall_count True ?r s"
    by (subst findall_count.simps, subst m2, simp)
  finally show ?thesis .
qed

lemma webhook_repeat:
  "findall_count True (seqs [RLits ''webhook'', r_opt (RSet False [CChar CHR ''s''])])
     (concat (replicate n ''webhook '') @ s)
   = n + findall_count True (seqs [RLits ''webhook'', r_opt (RSet False [CChar CHR ''s''])]) s"
proof (induction n)
  case 0
  show ?case by simp
next
  case (Suc n)
  have "concat (replicate (Suc n) ''webhook '') @ s
      = ''webhook '' @ (concat (replicate n ''webhook '') @ s)"
    by simp
  then show ?case by (simp only: webhook_step Suc.IH add_Suc)
qed

lemma py_lower_webhooks:
  "py_lower (concat (replicate n ''webhook '')) = concat (replicate n ''webhook '')"
  by (induction n) (simp_all add: py_lower_def lower_chr_def)

lemma webhooks_saturate:
  assumes "20 \<le> n"
  shows "int n \<le> count_matches integration_points_patterns
            (combined_content (new_analyzer (concat (replicate n ''webhook '')) arch)) 0 \<and>
         integration_points (analyze (new_analyzer (concat (replicate n ''webhook '')) arch)) = 20"
proof -
  let ?a = "new_analyzer (concat (replicate n ''webhook '')) arch"
  let ?r = "seqs [RLits ''webhook'', r_opt (RSet False [CChar CHR ''s''])]"
  obtain rest where c: "combined_content ?a = concat (replicate n ''webhook '') @ rest"
    by (simp add: new_analyzer_def Let_def py_lower_webhooks)
  have "int n \<le> int (findall_count True ?r (combined_content ?a))"
    by (simp only: c webhook_repeat)
  also have "\<dots> \<le> count_matches integration_points_patterns (combined_content ?a) 0"
    by (simp add: count_matches_sum integration_points_patterns_def)
  finally have ge: "int n \<le> count_matches integration_points_patterns (combined_content ?a) 0" .
  then have "integration_points (analyze ?a) = 20"
    using assms by (simp add: analyze_fields mk_factors_def)
  with ge show ?thesis by simp
qed

text \<open>
  Claim C3: for every input text, each of the eight factor counts produced by the
  analyze operation lies in [0, 20]: the sum of the matches of a factor's patterns is
  cut to 20 (\<open>min\<close>), it is not an error. The witness is a text of 25 repeated
  matching phrases, whose raw count of 25 is recorded as 20.
\<close>

theorem analyze_counts_clamped:
  "nonneg_counts (analyze (new_analyzer text arch)) \<and>
   capped_counts (analyze (new_analyzer text arch)) \<and>
   analyze (new_analyzer text arch) =
     (let t = combined_content (new_analyzer text arch) in
      mk_factors
       (min (count_matches functional_requirements_patterns t 0) 20)
       (min (count_matches integration_points_patterns t 0) 20)
       (min (count_matches ui_components_patterns t 0) 20)
       (min (count_matches database_changes_patterns t 0) 20)
       (min (count_matches external_apis_patterns t 0) 20)
       (min (count_matches authentication_features_patterns t 0) 20)
       (min (count_matches file_operations_patterns t 0) 20)
       (min (count_matches real_time_features_patterns t 0) 20))"
  by (intro conjI analyze_nonneg analyze_capped) (simp only: Let_def, rule analyze_fields)

theorem analyze_counts_clamped_witness:
  "25 \<le> count_matches integration_points_patterns
      (combined_content (new_analyzer (concat (replicate 25 ''webhook '')) None)) 0 \<and>
   integration_points (analyze (new_analyzer (concat (replicate 25 ''webhook '')) None)) = 20 \<and>
   nonneg_counts (analyze (new_analyzer (concat (replicate 25 ''webhook '')) None)) \<and>
   capped_counts (analyze (new_analyzer (concat (replicate 25 ''webhook '')) None))"
proof -
  have a: "25 \<le> count_matches integration_points_patterns
      (combined_content (new_analyzer (concat (replicate 25 ''webhook '')) None)) 0 \<and>
   integration_points (analyze (new_analyzer (concat (replicate 25 ''webhook '')) None)) = 20"
    using webhooks_saturate [of 25 None] by simp
  have b: "nonneg_counts (analyze (new_analyzer (concat (replicate 25 ''webhook '')) None)) \<and>
   capped_counts (analyze (new_analyzer (concat (replicate 25 ''webhook '')) None))"
    using analyze_counts_clamped [of "concat (replicate 25 ''webhook '')" None] by blast
  from a b show ?thesis by blast
qed

lemma empty_combined: "combined_content (new_analyzer [] None) = [CHR 0x0A]"
  by (simp add: new_analyzer_def py_lower_def)

lemma empty_functional_requirements:
  "count_matches functional_requirements_patterns [CHR 0x0A] 0 = 0"
  by code_simp

lemma empty_integration_points: "count_matches integration_points_patterns [CHR 0x0A] 0 = 0"
  by code_simp

lemma empty_ui_components: "count_matches ui_components_patterns [CHR 0x0A] 0 = 0"
  by code_simp

lemma empty_database_changes: "count_matches database_changes_patterns [CHR 0x0A] 0 = 0"
  by code_simp

lemma empty_external_apis: "count_matches external_apis_patterns [CHR 0x0A] 0 = 0"
  by code_simp

lemma empty_authentication_features:
  "count_matches authentication_features_patterns [CHR 0x0A] 0 = 0"
  by code_simp

lemma empty_file_operations: "count_matches file_operations_patterns [CHR 0x0A] 0 = 0"
  by code_simp

lemma empty_real_time_features: "count_matches real_time_features_patterns [CHR 0x0A] 0 = 0"
  by code_simp

lemma analyze_empty: "analyze (new_analyzer [] None) = mk_factors 0 0 0 0 0 0 0 0"
  by (simp only: analyze_fields empty_combined empty_functional_requirements
      empty_integration_points empty_ui_components empty_database_changes
      empty_external_apis empty_authentication_features empty_file_operations
      empty_real_time_features) simp

section \<open>Properties of the metadata extraction\<close>

subsection \<open>Characters\<close>






subsection \<open>The heading patterns on a text that begins with the example heading\<close>






subsection \<open>The kebab-case conversion is the slug of the specification\<close>

lemma in_class_alnum:
  "in_class False [CRange CHR ''a'' CHR ''z'', CRange CHR ''0'' CHR ''9''] x = is_alnum x"
  by (simp add: in_class_def is_alnum_def Let_def)

lemma rmatch_not_alnum_char:
  "rmatch False (RSet True [CRange CHR ''a'' CHR ''z'', CRange CHR ''0'' CHR ''9'']) (s, g) k =
     (case s of [] \<Rightarrow> None | x # xs \<Rightarrow> if \<not> is_alnum x then k (xs, g) else None)"
  by (cases s) (simp_all add: in_class_alnum)

lemma star_greedy_dropWhile:
  assumes m: "\<And>s g k. m (s, g) k =
      (case s of [] \<Rightarrow> None | x # xs \<Rightarrow> if P x then k (xs, g) else None)"
  shows "length s \<le> n \<Longrightarrow> star_greedy n m (s, g) Some = Some (dropWhile P s, g)"
proof (induction n arbitrary: s)
  case 0
  then show ?case by simp
next
  case (Suc n)
  show ?case
  proof (cases s)
    case Nil
    then show ?thesis by (simp add: m)
  next
    case (Cons x xs)
    then have "length xs \<le> n" using Suc.prems by simp
    then have "star_greedy n m (xs, g) Some = Some (dropWhile P xs, g)"
      by (rule Suc.IH)
    then show ?thesis using Cons by (simp add: m)
  qed
qed

lemma rmatch_not_alnum:
  "rmatch False r_not_alnum (s, None) Some =
     (case s of [] \<Rightarrow> None
      | x # xs \<Rightarrow> if is_alnum x then None
                  else Some (dropWhile (\<lambda>x. \<not> is_alnum x) xs, None))"
proof (cases s)
  case Nil
  then show ?thesis
    by (simp only: r_not_alnum_def r_plus_def rmatch.simps(4) rmatch_not_alnum_char list.case)
next
  case (Cons x xs)
  have "star_greedy (length xs)
      (rmatch False (RSet True [CRange CHR ''a'' CHR ''z'', CRange CHR ''0'' CHR ''9'']))
      (xs, None) Some = Some (dropWhile (\<lambda>x. \<not> is_alnum x) xs, None)"
    by (rule star_greedy_dropWhile [OF rmatch_not_alnum_char order_refl])
  then show ?thesis using Cons
    by (simp only: r_not_alnum_def r_plus_def rmatch.simps(4) rmatch.simps(6)
        rmatch_not_alnum_char list.case fst_conv split: if_splits) simp
qed

lemma re_sub_collapse: "re_sub False r_not_alnum ''-'' s = collapse_runs s"
proof (induction s rule: collapse_runs.induct)
  case 1
  show ?case by (subst re_sub.simps) (simp add: rmatch_not_alnum)
next
  case (2 c cs)
  show ?case
  proof (cases "is_alnum c")
    case True
    then show ?thesis using 2 by (subst re_sub.simps) (simp add: rmatch_not_alnum)
  next
    case False
    have "length (dropWhile (\<lambda>x. \<not> is_alnum x) cs) < Suc (length cs)"
      by (simp add: length_dropWhile_le less_Suc_eq_le)
    then show ?thesis using False 2
      by (subst re_sub.simps) (simp add: rmatch_not_alnum)
  qed
qed

lemma kebab_case_spec: "kebab_case title = spec_slug title"
  by (simp add: kebab_case_def spec_slug_def re_sub_collapse)

subsection \<open>Group 1 takes part in every match of the extraction patterns\<close>

lemma star_greedy_group:
  assumes m: "\<And>c k res. m c k = Some res \<Longrightarrow>
      \<exists>c'. k c' = Some res \<and> (snd c \<noteq> None \<longrightarrow> snd c' \<noteq> None)"
  shows "star_greedy n m c k = Some res \<Longrightarrow>
      \<exists>c'. k c' = Some res \<and> (snd c \<noteq> None \<longrightarrow> snd c' \<noteq> None)"
proof (induction n arbitrary: c)
  case 0
  then have "k c = Some res" by simp
  then show ?case by (intro exI [of _ c]) simp
next
  case (Suc n)
  let ?K = "\<lambda>c'. if length (fst c') < length (fst c) then star_greedy n m c' k else None"
  show ?case
  proof (cases "m c ?K")
    case None
    then have "k c = Some res" using Suc.prems by simp
    then show ?thesis by (intro exI [of _ c]) simp
  next
    case (Some r)
    then have "r = res" using Suc.prems by simp
    with Some have "m c ?K = Some res" by simp
    from m [OF this] obtain c1 where
      c1: "?K c1 = Some res" and g1: "snd c \<noteq> None \<longrightarrow> snd c1 \<noteq> None" by blast
    from c1 have "star_greedy n m c1 k = Some res" by (simp split: if_splits)
    from Suc.IH [OF this] obtain c' where
      "k c' = Some res" and "snd c1 \<noteq> None \<longrightarrow> snd c' \<noteq> None" by blast
    with g1 show ?thesis by (intro exI [of _ c']) simp
  qed
qed

lemma star_lazy_group:
  assumes m: "\<And>c k res. m c k = Some res \<Longrightarrow>
      \<exists>c'. k c' = Some res \<and> (snd c \<noteq> None \<longrightarrow> snd c' \<noteq> None)"
  shows "star_lazy n m c k = Some res \<Longrightarrow>
      \<exists>c'. k c' = Some res \<and> (snd c \<noteq> None \<longrightarrow> snd c' \<noteq> None)"
proof (induction n arbitrary: c)
  case 0
  then have "k c = Some res" by simp
  then show ?case by (intro exI [of _ c]) simp
next
  case (Suc n)
  let ?K = "\<lambda>c'. if length (fst c') < length (fst c) then star_lazy n m c' k else None"
  show ?case
  proof (cases "k c")
    case (Some r)
    then have "k c = Some res" using Suc.prems by simp
    then show ?thesis by (intro exI [of _ c]) simp
  next
    case None
    then have "m c ?K = Some res" using Suc.prems by simp
    from m [OF this] obtain c1 where
      c1: "?K c1 = Some res" and g1: "snd c \<noteq> None \<longrightarrow> snd c1 \<noteq> None" by blast
    from c1 have "star_lazy n m c1 k = Some res" by (simp split: if_splits)
    from Suc.IH [OF this] obtain c' where
      "k c' = Some res" and "snd c1 \<noteq> None \<longrightarrow> snd c' \<noteq> None" by blast
    with g1 show ?thesis by (intro exI [of _ c']) simp
  qed
qed

lemma rmatch_group:
  "rmatch ic r c k = Some res \<Longrightarrow>
   \<exists>c'. k c' = Some res \<and> (snd c \<noteq> None \<or> sets_group r \<longrightarrow> snd c' \<noteq> None)"
proof (induction r arbitrary: c k res)
  case (RLits s)
  then obtain rest where "k (rest, snd c) = Some res"
    by (cases "strip_lits ic s (fst c)") simp_all
  then show ?case by (intro exI [of _ "(rest, snd c)"]) simp
next
  case RDot
  then obtain xs where "k (xs, snd c) = Some res"
    by (cases "fst c") (simp_all split: if_splits)
  then show ?case by (intro exI [of _ "(xs, snd c)"]) simp
next
  case (RSet neg items)
  then obtain xs where "k (xs, snd c) = Some res"
    by (cases "fst c") (simp_all split: if_splits)
  then show ?case by (intro exI [of _ "(xs, snd c)"]) simp
next
  case (RSeq a b)
  from RSeq.prems have "rmatch ic a c (\<lambda>c'. rmatch ic b c' k) = Some res" by simp
  from RSeq.IH(1) [OF this] obtain c1 where
    b: "rmatch ic b c1 k = Some res" and
    g1: "snd c \<noteq> None \<or> sets_group a \<longrightarrow> snd c1 \<noteq> None" by blast
  from RSeq.IH(2) [OF b] obtain c' where
    "k c' = Some res" and "snd c1 \<noteq> None \<or> sets_group b \<longrightarrow> snd c' \<noteq> None" by blast
  with g1 show ?case by (intro exI [of _ c']) auto
next
  case (RAlt a b)
  show ?case
  proof (cases "rmatch ic a c k")
    case None
    then have "rmatch ic b c k = Some res" using RAlt.prems by simp
    from RAlt.IH(2) [OF this] obtain c' where
      "k c' = Some res" and "snd c \<noteq> None \<or> sets_group b \<longrightarrow> snd c' \<noteq> None" by blast
    then show ?thesis by (intro exI [of _ c']) auto
  next
    case (Some r)
    then have "rmatch ic a c k = Some res" using RAlt.prems by simp
    from RAlt.IH(1) [OF this] obtain c' where
      "k c' = Some res" and "snd c \<noteq> None \<or> sets_group a \<longrightarrow> snd c' \<noteq> None" by blast
    then show ?thesis by (intro exI [of _ c']) auto
  qed
next
  case (RStar a)
  have m: "\<exists>c'. k c' = Some res \<and> (snd c \<noteq> None \<longrightarrow> snd c' \<noteq> None)"
    if "rmatch ic a c k = Some res" for c k res
    using RStar.IH [OF that] by blast
  from RStar.prems have "star_greedy (length (fst c)) (rmatch ic a) c k = Some res" by simp
  from star_greedy_group [where m = "rmatch ic a", OF m this] obtain c' where
    "k c' = Some res" and "snd c \<noteq> None \<longrightarrow> snd c' \<noteq> None" by blast
  then show ?case by (intro exI [of _ c']) simp
next
  case (RLazyStar a)
  have m: "\<exists>c'. k c' = Some res \<and> (snd c \<noteq> None \<longrightarrow> snd c' \<noteq> None)"
    if "rmatch ic a c k = Some res" for c k res
    using RLazyStar.IH [OF that] by blast
  from RLazyStar.prems have "star_lazy (length (fst c)) (rmatch ic a) c k = Some res" by simp
  from star_lazy_group [where m = "rmatch ic a", OF m this] obtain c' where
    "k c' = Some res" and "snd c \<noteq> None \<longrightarrow> snd c' \<noteq> None" by blast
  then show ?case by (intro exI [of _ c']) simp
next
  case (RGroup a)
  from RGroup.prems have "rmatch ic a c
      (\<lambda>c'. k (fst c', Some (take (length (fst c) - length (fst c')) (fst c)))) = Some res"
    by simp
  from RGroup.IH [OF this] show ?case
  proof (elim exE conjE)
    fix c1
    assume "k (fst c1, Some (take (length (fst c) - length (fst c1)) (fst c))) = Some res"
    then show ?thesis
      by (intro exI [of _ "(fst c1, Some (take (length (fst c) - length (fst c1)) (fst c)))"])
        simp
  qed
next
  case REol
  then have "k c = Some res" by (simp split: if_splits)
  then show ?case by (intro exI [of _ c]) simp
qed

lemma re_search_group:
  "re_search ic r s = Some m \<Longrightarrow> sets_group r \<Longrightarrow> \<exists>g. snd m = Some g"
proof (induction s)
  case Nil
  then have "rmatch ic r ([], None) Some = Some m" by simp
  from rmatch_group [OF this] show ?case using Nil.prems(2) by auto
next
  case (Cons x xs)
  show ?case
  proof (cases "rmatch ic r (x # xs, None) Some")
    case None
    then show ?thesis using Cons by simp
  next
    case (Some r')
    then have "rmatch ic r (x # xs, None) Some = Some m" using Cons.prems by simp
    from rmatch_group [OF this] show ?thesis using Cons.prems(2) by auto
  qed
qed

lemma title_patterns_group:
  "sets_group title_labelled_heading" "sets_group title_first_heading"
  "sets_group title_inline_label"
  by (simp_all add: title_labelled_heading_def title_first_heading_def title_inline_label_def)

lemma project_patterns_group:
  "sets_group project_label" "sets_group project_capitalized_phrase"
  by (simp_all add: project_label_def project_capitalized_phrase_def)

subsection \<open>The feature name\<close>






lemma feature_name_found:
  assumes "re_search True p text = Some m" and "sets_group p"
  shows "\<exists>t. snd m = Some t \<and>
     feature_name_loop (p # ps) text = Inr (spec_slug (py_strip is_space t))"
proof -
  from re_search_group [OF assms] obtain t where t: "snd m = Some t" by blast
  then have "feature_name_loop (p # ps) text = Inr (spec_slug (py_strip is_space t))"
    using assms(1) by (simp add: group1_strip_def kebab_case_spec)
  with t show ?thesis by blast
qed






subsection \<open>Neither extraction raises\<close>

lemma feature_name_loop_total:
  "(\<And>p. p \<in> set ps \<Longrightarrow> sets_group p) \<Longrightarrow> \<exists>s. feature_name_loop ps text = Inr s"
proof (induction ps)
  case Nil
  show ?case by simp
next
  case (Cons p ps)
  show ?case
  proof (cases "re_search True p text")
    case None
    then show ?thesis using Cons by simp
  next
    case (Some m)
    have "sets_group p" by (rule Cons.prems) simp
    from feature_name_found [OF Some this] show ?thesis by blast
  qed
qed

lemma extract_feature_name_total: "\<exists>s. extract_feature_name a = Inr s"
  unfolding extract_feature_name_def
  by (rule feature_name_loop_total) (auto simp add: title_patterns_def title_patterns_group)

lemma project_name_loop_total:
  "(\<And>p. p \<in> set ps \<Longrightarrow> sets_group p) \<Longrightarrow> \<exists>s. project_name_loop ps text = Inr s"
proof (induction ps)
  case Nil
  show ?case by simp
next
  case (Cons p ps)
  show ?case
  proof (cases "re_search True p text")
    case None
    then show ?thesis using Cons by simp
  next
    case (Some m)
    have "sets_group p" by (rule Cons.prems) simp
    from re_search_group [OF Some this] obtain g where "snd m = Some g" by blast
    then show ?thesis using Some by (simp add: group1_strip_def)
  qed
qed

lemma extract_project_name_total: "\<exists>s. extract_project_name a = Inr s"
  unfolding extract_project_name_def
  by (rule project_name_loop_total) (auto simp add: project_patterns_def project_patterns_group)

subsection \<open>The project name\<close>

text \<open>
  Claim C9: project-name extraction tries the "project: X" label and then a capitalized
  phrase followed by "project", "app" or "application", and falls back to "Project".
  The code searches the lower-cased PRD text with \<open>re.IGNORECASE\<close>, so the capital
  letters that the second pattern spells out are not required: on the text
  "Notes for the billing app", which has no label and no capitalized phrase (the pattern
  without the flag matches neither the text nor its lower-cased form), the code returns
  "billing" instead of the fallback; a capitalized phrase is returned lower-cased, and
  the article "the" is taken for a name.
\<close>

theorem project_name_lowercase_phrase:
  "extract_project_name (new_analyzer ''Notes for the billing app'' None) = Inr ''billing'' \<and>
   re_search True project_label (py_lower ''Notes for the billing app'') = None \<and>
   re_search False project_capitalized_phrase (py_lower ''Notes for the billing app'') = None \<and>
   re_search False project_capitalized_phrase ''Notes for the billing app'' = None \<and>
   extract_project_name (new_analyzer ''Built for the Acme Cloud app'' None) = Inr ''acme cloud'' \<and>
   extract_project_name (new_analyzer ''Work in the application'' None) = Inr ''the''"
  by code_simp

section \<open>The whole analysis\<close>

text \<open>
  Claim C6: the analysis has no error condition. The model of \<open>analyze\<close> and of the
  scorer has no error value because the source raises nowhere on that path, and every
  function of the model is total; for every text the result is fully populated: counts
  in [0, 20], a non-negative score, a category that is a key of the table of ranges,
  and two ranges with low <= high. The one place of the pipeline that could raise, the
  use of group 1 in the two extractions, never does. The empty PRD text without
  architecture document gives eight counts of 0, score 0, category "simple", story
  range (3,5) and iteration range (3,7).
\<close>

theorem analysis_total_empty_text:
  "nonneg_counts (analyze (new_analyzer text arch)) \<and>
   capped_counts (analyze (new_analyzer text arch)) \<and>
   0 \<le> calculate_score (analyze (new_analyzer text arch)) \<and>
   map_of ranges (get_category (analyze (new_analyzer text arch)))
     = Some (get_story_count_range (analyze (new_analyzer text arch))) \<and>
   fst (get_story_count_range (analyze (new_analyzer text arch)))
     \<le> snd (get_story_count_range (analyze (new_analyzer text arch))) \<and>
   fst (get_iteration_estimate (analyze (new_analyzer text arch)))
     \<le> snd (get_iteration_estimate (analyze (new_analyzer text arch))) \<and>
   (\<exists>name. extract_feature_name (new_analyzer text arch) = Inr name) \<and>
   (\<exists>name. extract_project_name (new_analyzer text arch) = Inr name) \<and>
   analyze (new_analyzer [] None) = mk_factors 0 0 0 0 0 0 0 0 \<and>
   calculate_score (analyze (new_analyzer [] None)) = 0 \<and>
   get_category (analyze (new_analyzer [] None)) = ''simple'' \<and>
   get_story_count_range (analyze (new_analyzer [] None)) = (3, 5) \<and>
   get_iteration_estimate (analyze (new_analyzer [] None)) = (3, 7)"
proof -
  let ?f = "analyze (new_analyzer text arch)"
  have a: "0 \<le> calculate_score ?f"
    by (rule score_nonneg) (rule analyze_nonneg)
  have b: "map_of ranges (get_category ?f) = Some (get_story_count_range ?f)"
    using category_cases [of ?f] by (auto simp add: story_range_eq ranges_def)
  have c: "fst (get_story_count_range ?f) \<le> snd (get_story_count_range ?f)"
    by (simp add: story_range_eq)
  have d: "fst (get_iteration_estimate ?f) \<le> snd (get_iteration_estimate ?f)"
    by (simp add: iteration_estimate_eq)
  have s0: "calculate_score (mk_factors 0 0 0 0 0 0 0 0) = 0"
    by (simp add: score_mk_factors)
  have c0: "get_category (mk_factors 0 0 0 0 0 0 0 0) = ''simple''"
    by (simp add: category_simple s0)
  have e: "\<exists>name. extract_feature_name (new_analyzer text arch) = Inr name"
    by (rule extract_feature_name_total)
  have f: "\<exists>name. extract_project_name (new_analyzer text arch) = Inr name"
    by (rule extract_project_name_total)
  have g: "analyze (new_analyzer [] None) = mk_factors 0 0 0 0 0 0 0 0 \<and>
   calculate_score (analyze (new_analyzer [] None)) = 0 \<and>
   get_category (analyze (new_analyzer [] None)) = ''simple'' \<and>
   get_story_count_range (analyze (new_analyzer [] None)) = (3, 5) \<and>
   get_iteration_estimate (analyze (new_analyzer [] None)) = (3, 7)"
    using s0 c0 by (simp add: analyze_empty story_range_eq iteration_estimate_eq)
  from a b c d e f g show ?thesis
    by (intro conjI analyze_nonneg analyze_capped) blast+
qed

end
